theory Spec2Isabelle
  imports Main
begin

section \<open>JavaScript values\<close>

text \<open>
  The items that scrapers return and the writers receive are JavaScript values. Numbers are
  the integral ones whose decimal form JavaScript prints without an exponent; an object is
  the list of its own enumerable properties in enumeration order.
\<close>

datatype jsval =
    JUndefined
  | JNull
  | JBool bool
  | JNum int
  | JStr string
  | JArr "jsval list"
  | JObj "(string \<times> jsval) list"

text \<open>The truth value of \<open>if (v)\<close>, \<open>v || w\<close> and \<open>v && w\<close>.\<close>

fun truthy :: "jsval \<Rightarrow> bool" where
  "truthy JUndefined = False"
| "truthy JNull = False"
| "truthy (JBool b) = b"
| "truthy (JNum n) = (n \<noteq> 0)"
| "truthy (JStr s) = (s \<noteq> [])"
| "truthy (JArr xs) = True"
| "truthy (JObj kvs) = True"

fun isArray :: "jsval \<Rightarrow> bool" where
  "isArray (JArr xs) = True"
| "isArray v = False"

text \<open>\<open>arrify(a)\<close>: \<open>isArray(a) ? a : a ? [a] : []\<close>.\<close>

fun arrify :: "jsval \<Rightarrow> jsval list" where
  "arrify (JArr xs) = xs"
| "arrify v = (if truthy v then [v] else [])"

text \<open>
  \<open>Array.prototype.join\<close>: an element that is \<open>undefined\<close> (or a hole of the array),
  here \<open>None\<close>, is printed as the empty string.
\<close>

fun js_join :: "string \<Rightarrow> string option list \<Rightarrow> string" where
  "js_join sep [] = []"
| "js_join sep [x] = (case x of None \<Rightarrow> [] | Some s \<Rightarrow> s)"
| "js_join sep (x # y # ys) =
     (case x of None \<Rightarrow> [] | Some s \<Rightarrow> s) @ sep @ js_join sep (y # ys)"

text \<open>Decimal digits of a number, as string concatenation and \<open>JSON.stringify\<close> print it.\<close>

definition digit_char :: "nat \<Rightarrow> char" where
  "digit_char d = ''0123456789abcdef'' ! d"

function show_nat :: "nat \<Rightarrow> string" where
  "show_nat n = (if n < 10 then [digit_char n] else show_nat (n div 10) @ [digit_char (n mod 10)])"
  by pat_completeness auto
termination
  by (relation "measure id") auto

declare show_nat.simps [simp del]

definition show_int :: "int \<Rightarrow> string" where
  "show_int i = (if i < 0 then CHR ''-'' # show_nat (nat (- i)) else show_nat (nat i))"

section \<open>\<open>JSON.stringify\<close>\<close>

text \<open>
  The quote is \<open>CHR 0x22\<close> and the backslash \<open>CHR 0x5C\<close>. \<open>JSON.stringify\<close>
  escapes both with a backslash and writes a control character as its short escape or,
  behind a backslash, as \<open>u00\<close> and its two hexadecimal digits.
\<close>

definition json_escape :: "char \<Rightarrow> string" where
  "json_escape c =
     (if c = CHR 0x22 then [CHR 0x5C, CHR 0x22]
      else if c = CHR 0x5C then [CHR 0x5C, CHR 0x5C]
      else if c = CHR 0x08 then [CHR 0x5C, CHR ''b'']
      else if c = CHR 0x0C then [CHR 0x5C, CHR ''f'']
      else if c = CHR 0x0A then [CHR 0x5C, CHR ''n'']
      else if c = CHR 0x0D then [CHR 0x5C, CHR ''r'']
      else if c = CHR 0x09 then [CHR 0x5C, CHR ''t'']
      else if (of_char c :: nat) < 32 then
        [CHR 0x5C, CHR ''u'', CHR ''0'', CHR ''0'',
         digit_char (of_char c div 16), digit_char (of_char c mod 16)]
      else [c])"

definition json_string :: "string \<Rightarrow> string" where
  "json_string s = CHR 0x22 # concat (map json_escape s) @ [CHR 0x22]"

text \<open>
  \<open>JSON.stringify(v)\<close> is \<open>undefined\<close> for \<open>undefined\<close>; inside an array
  \<open>undefined\<close> is written \<open>null\<close>, and a property whose value is \<open>undefined\<close> is
  left out of an object.
\<close>

fun stringify :: "jsval \<Rightarrow> string option" where
  "stringify JUndefined = None"
| "stringify JNull = Some ''null''"
| "stringify (JBool b) = Some (if b then ''true'' else ''false'')"
| "stringify (JNum n) = Some (show_int n)"
| "stringify (JStr s) = Some (json_string s)"
| "stringify (JArr xs) =
     Some (''['' @ js_join '',''
        (map (\<lambda>x. Some (case stringify x of None \<Rightarrow> ''null'' | Some s \<Rightarrow> s)) xs) @ '']'')"
| "stringify (JObj kvs) =
     Some (''{'' @ js_join '',''
        (concat (map (\<lambda>(k, v). case stringify v of None \<Rightarrow> []
                                 | Some s \<Rightarrow> [Some (json_string k @ '':'' @ s)]) kvs))
        @ ''}'')"

section \<open>Formatters\<close>

text \<open>
  A formatter object: the three framing strings and \<open>format(item)\<close>. The writers call
  \<open>format\<close> through \<open>Array.prototype.map\<close> and join the results, so a result of
  \<open>undefined\<close> is \<open>None\<close>. The writers are modelled for a \<open>format\<close> that returns
  for every item and keeps no state, as that of \<open>formatters.json\<close> does; the \<open>format\<close>
  of \<open>formatters.csv\<close>, which keeps its field list and can throw, is modelled by itself
  further down.
\<close>

record formatter =
  f_start :: string
  f_end :: string
  f_delimiter :: string
  f_format :: "jsval \<Rightarrow> string option"

text \<open>\<open>formatters.json\<close>.\<close>

definition json_formatter :: formatter where
  "json_formatter = \<lparr>f_start = ''['', f_end = '']'', f_delimiter = '','', f_format = stringify\<rparr>"

section \<open>Configuration and run state\<close>

datatype writer_kind = Stdout | File | Itemfile

record config =
  timeoutInterval :: nat
  timeoutLimit :: nat
  batchSize :: "nat option"
  cfg_formatter :: formatter
  cfg_writer :: writer_kind
  outFile :: string
  csvFields :: "string list option"

text \<open>The \<open>config\<close> object as the script initialises it; no batch size is set.\<close>

definition default_config :: config where
  "default_config = \<lparr>timeoutInterval = 300, timeoutLimit = 3000, batchSize = None,
     cfg_formatter = json_formatter, cfg_writer = Stdout, outFile = ''pjscrape_out.txt'',
     csvFields = None\<rparr>"

text \<open>
  The variables the closures of the script share, as one state: the lines handed to the
  logger (\<open>log.log\<close>, whatever the logger does with them), the writer's \<open>count\<close>,
  \<open>items\<close>, \<open>firstWrite\<close> and \<open>lastWrite\<close>, the strings handed to \<open>w.write\<close>
  (which prints them for \<open>writers.base\<close> and appends them to the output file for
  \<open>writers.file\<close>), and the calls \<open>phantom.saveToFile(content, path, mode)\<close> of
  \<open>writers.itemfile\<close> in the order they were made.
\<close>

datatype fmode = ModeW | ModeA

record wstate =
  logged :: "string list"
  w_count :: nat
  w_items :: "jsval list"
  firstWrite :: bool
  lastWrite :: bool
  written :: "string list"
  saved :: "(string option \<times> string \<times> fmode) list"

definition log_msg :: "string \<Rightarrow> ('a wstate_scheme) \<Rightarrow> 'a wstate_scheme" where
  "log_msg m st = st\<lparr>logged := logged st @ [''* '' @ m]\<rparr>"

definition log_error :: "string \<Rightarrow> ('a wstate_scheme) \<Rightarrow> 'a wstate_scheme" where
  "log_error m st = st\<lparr>logged := logged st @ [''ERROR: '' @ m]\<rparr>"

section \<open>The batching writer\<close>

definition writeBatch :: "config \<Rightarrow> jsval list \<Rightarrow> ('a wstate_scheme) \<Rightarrow> 'a wstate_scheme" where
  "writeBatch cfg batch st =
     (let fm = cfg_formatter cfg;
          st1 = log_msg (''Writing '' @ show_nat (length batch) @ '' items'') st;
          s = (if firstWrite st1 then f_start fm else f_delimiter fm)
              @ js_join (f_delimiter fm) (map (f_format fm) batch)
              @ (if lastWrite st1 then f_end fm else [])
      in st1\<lparr>written := written st1 @ [s], firstWrite := False\<rparr>)"

text \<open>
  \<open>w.add(i)\<close>. The test \<open>batchSize && items.length > batchSize\<close> is false for a batch
  size of 0 as for none; \<open>items.splice(0, batchSize)\<close> takes the oldest \<open>batchSize\<close> items
  out of the buffer.
\<close>

definition w_add :: "config \<Rightarrow> jsval \<Rightarrow> ('a wstate_scheme) \<Rightarrow> 'a wstate_scheme" where
  "w_add cfg i st =
     (if truthy i then
        (let is = arrify i;
             st1 = st\<lparr>w_items := w_items st @ is, w_count := w_count st + length is\<rparr>
         in case batchSize cfg of
              None \<Rightarrow> st1
            | Some b \<Rightarrow>
                if b \<noteq> 0 \<and> length (w_items st1) > b
                then writeBatch cfg (take b (w_items st1)) (st1\<lparr>w_items := drop b (w_items st1)\<rparr>)
                else st1)
      else st)"

definition w_finish :: "config \<Rightarrow> ('a wstate_scheme) \<Rightarrow> 'a wstate_scheme" where
  "w_finish cfg st = (let st1 = st\<lparr>lastWrite := True\<rparr> in writeBatch cfg (w_items st1) st1)"

text \<open>The state of a writer that \<open>new writers.base(log)\<close> has just made.\<close>

definition new_writer :: wstate where
  "new_writer = \<lparr>logged = [], w_count = 0, w_items = [], firstWrite = True, lastWrite = False,
     written = [], saved = []\<rparr>"

section \<open>The one-file-per-item writer\<close>

text \<open>
  \<open>writers.itemfile\<close>. For every formatted item the source computes
  \<open>filename = config.outFile + '-' + (count++)\<close> and then calls
  \<open>phantom.saveToFile(i, config.outFile, 'w')\<close>.
\<close>

definition itemfile_save :: "config \<Rightarrow> string option \<Rightarrow> ('a wstate_scheme) \<Rightarrow> 'a wstate_scheme" where
  "itemfile_save cfg i st =
     (let filename = outFile cfg @ ''-'' @ show_nat (w_count st);
          st1 = st\<lparr>w_count := w_count st + 1\<rparr>
      in st1\<lparr>saved := saved st1 @ [(i, outFile cfg, ModeW)]\<rparr>)"

definition itemfile_add :: "config \<Rightarrow> jsval \<Rightarrow> ('a wstate_scheme) \<Rightarrow> 'a wstate_scheme" where
  "itemfile_add cfg items st =
     (if truthy items
      then fold (itemfile_save cfg) (map (f_format (cfg_formatter cfg)) (arrify items)) st
      else st)"

definition itemfile_finish :: "('a wstate_scheme) \<Rightarrow> 'a wstate_scheme" where
  "itemfile_finish st = st"

text \<open>The writer object that \<open>init\<close> makes from \<open>config.writer\<close>.\<close>

definition writer_add :: "config \<Rightarrow> jsval \<Rightarrow> ('a wstate_scheme) \<Rightarrow> 'a wstate_scheme" where
  "writer_add cfg i st =
     (case cfg_writer cfg of Itemfile \<Rightarrow> itemfile_add cfg i st | _ \<Rightarrow> w_add cfg i st)"

definition writer_finish :: "config \<Rightarrow> ('a wstate_scheme) \<Rightarrow> 'a wstate_scheme" where
  "writer_finish cfg st =
     (case cfg_writer cfg of Itemfile \<Rightarrow> itemfile_finish st | _ \<Rightarrow> w_finish cfg st)"

section \<open>Suites and the suite runner\<close>

text \<open>
  A value of type \<open>'p\<close> is the page as \<open>page.evaluate\<close> finds it; the functions of a
  suite's options that the source evaluates in the page are functions of \<open>'p\<close>. The
  link-discovery hook \<open>moreUrls\<close> is optional, and its result is \<open>None\<close> when it is
  not an array (\<open>undefined\<close>, \<open>null\<close>, \<open>false\<close>). Scripts injected into the page and
  the \<open>preScrape\<close> hook only change the page.
\<close>

record 'p options =
  ready :: "'p \<Rightarrow> bool"
  scrapable :: "'p \<Rightarrow> bool"
  scrapers :: "('p \<Rightarrow> jsval) list"
  moreUrls :: "('p \<Rightarrow> string list option) option"
  maxDepth :: "nat option"

record 'p suite =
  title :: string
  urls :: "string list"
  opts :: "'p options"
  depth :: nat

text \<open>The constructor \<open>ScraperSuite(title, urls, opts)\<close> ends with \<open>s.depth = 0\<close>.\<close>

definition ScraperSuite :: "string \<Rightarrow> string list \<Rightarrow> 'p options \<Rightarrow> 'p suite" where
  "ScraperSuite t us os = \<lparr>title = t, urls = us, opts = os, depth = 0\<rparr>"

text \<open>
  The runner adds to the writer's state the queue of the suite manager, the \<open>visited\<close>
  object, the counter \<open>i\<close> of the running suite, and the URLs handed to \<open>page.open\<close>
  in the order of the calls.
\<close>

record 'p rstate = wstate +
  suites :: "'p suite list"
  visited :: "string set"
  sub_i :: nat
  opened :: "string list"

text \<open>
  The web: \<open>page.open(url, callback)\<close> reports a status other than \<open>success\<close>
  (\<open>None\<close>), or loads a page, given as the page that the \<open>n\<close>-th evaluation of the
  readiness predicate finds: 0 is the evaluation right after the load, \<open>n > 0\<close> the one
  of the \<open>n\<close>-th tick of the interval timer.
\<close>

type_synonym 'p web = "string \<Rightarrow> (nat \<Rightarrow> 'p) option"

definition scrapePage :: "config \<Rightarrow> 'p suite \<Rightarrow> 'p \<Rightarrow> 'p rstate \<Rightarrow> 'p rstate" where
  "scrapePage cfg s page st =
     (if scrapable (opts s) page
      then fold (\<lambda>scraper. writer_add cfg (scraper page)) (scrapers (opts s)) st
      else st)"

text \<open>
  The completion callback of \<open>run\<close>, up to its call of \<open>runNext\<close>. The source calls
  \<open>moreUrls.filter(...)\<close> and drops the array it returns; \<open>filter\<close> leaves \<open>moreUrls\<close>
  as it was. \<open>!s.opts.maxDepth\<close> is true for no \<open>maxDepth\<close> and for 0.
\<close>

definition complete :: "'p suite \<Rightarrow> 'p option \<Rightarrow> 'p rstate \<Rightarrow> 'p rstate" where
  "complete s page st =
     (case page of
        None \<Rightarrow> st
      | Some p \<Rightarrow>
          (case moreUrls (opts s) of
             None \<Rightarrow> st
           | Some hook \<Rightarrow>
               (case hook p of
                  None \<Rightarrow> st
                | Some more_urls \<Rightarrow>
                    if (case maxDepth (opts s) of None \<Rightarrow> True | Some m \<Rightarrow> m = 0 \<or> depth s < m)
                    then
                      (let filtered = filter (\<lambda>url. url \<notin> visited st) more_urls in
                       if more_urls \<noteq> [] then
                         (let st1 = log_msg (''Found '' @ show_nat (length more_urls)
                                      @ '' additional urls to scrape'') st;
                              ss = ScraperSuite (title s @ ''-sub'' @ show_nat (sub_i st1)) more_urls (opts s);
                              st2 = st1\<lparr>sub_i := sub_i st1 + 1\<rparr>;
                              ss1 = ss\<lparr>depth := depth s + 1\<rparr>
                          in st2\<lparr>suites := suites st2 @ [ss1]\<rparr>)
                       else st)
                    else st)))"

text \<open>
  The interval timer of \<open>scrape\<close>: the callback of tick \<open>k\<close> finds \<open>elapsed\<close>, and
  either scrapes the page or adds the interval to \<open>elapsed\<close>. The result is the tick that
  scrapes; a timer that never does has no result.
\<close>

partial_function (option) poll :: "config \<Rightarrow> (nat \<Rightarrow> bool) \<Rightarrow> nat \<Rightarrow> nat \<Rightarrow> nat option" where
  "poll cfg rdy k elapsed =
     (if rdy k \<or> elapsed > timeoutLimit cfg then Some k
      else poll cfg rdy (Suc k) (elapsed + timeoutInterval cfg))"

declare poll.simps [code]

text \<open>\<open>scrape(url, scrapePage, complete)\<close>, with the callbacks that \<open>run\<close> passes.\<close>

definition scrape ::
    "config \<Rightarrow> 'p web \<Rightarrow> 'p suite \<Rightarrow> string \<Rightarrow> 'p rstate \<Rightarrow> 'p rstate option" where
  "scrape cfg web s url st =
     (let st0 = st\<lparr>opened := opened st @ [url]\<rparr> in
      case web url of
        None \<Rightarrow> Some (complete s None (log_error (''Page did not load: '' @ url) st0))
      | Some pg \<Rightarrow>
          (let st1 = log_msg (''Scraping '' @ url) (st0\<lparr>visited := insert url (visited st0)\<rparr>) in
           if ready (opts s) (pg 0)
           then Some (complete s (Some (pg 0)) (scrapePage cfg s (pg 0) st1))
           else
             (case poll cfg (\<lambda>k. ready (opts s) (pg k)) 1 0 of
                None \<Rightarrow> None
              | Some k \<Rightarrow> Some (complete s (Some (pg k)) (scrapePage cfg s (pg k) st1)))))"

text \<open>
  The loop \<open>runNext\<close> of \<open>run\<close> over the URLs that \<open>runCounter\<close> has not reached;
  after the last one \<open>s.complete()\<close> logs and hands over to the suite manager.
\<close>

fun run_urls ::
    "config \<Rightarrow> 'p web \<Rightarrow> 'p suite \<Rightarrow> string list \<Rightarrow> 'p rstate \<Rightarrow> 'p rstate option" where
  "run_urls cfg web s [] st = Some (log_msg (title s @ '' complete'') st)"
| "run_urls cfg web s (url # rest) st =
     (case scrape cfg web s url st of
        None \<Rightarrow> None
      | Some st1 \<Rightarrow> run_urls cfg web s rest st1)"

definition run :: "config \<Rightarrow> 'p web \<Rightarrow> 'p suite \<Rightarrow> 'p rstate \<Rightarrow> 'p rstate option" where
  "run cfg web s st =
     run_urls cfg web s (urls s) (log_msg (title s @ '' starting'') (st\<lparr>sub_i := 0\<rparr>))"

text \<open>
  \<open>SuiteManager.runNext\<close>: the head of the queue runs; with an empty queue the callback
  that \<open>init\<close> has set finishes the writer and logs the count.
\<close>

definition mgr_complete :: "config \<Rightarrow> 'p rstate \<Rightarrow> 'p rstate" where
  "mgr_complete cfg st =
     (let st1 = writer_finish cfg st
      in log_msg (''Saved '' @ show_nat (w_count st1) @ '' items'') st1)"

partial_function (option) runNext :: "config \<Rightarrow> 'p web \<Rightarrow> 'p rstate \<Rightarrow> 'p rstate option" where
  "runNext cfg web st =
     (case suites st of
        [] \<Rightarrow> Some (mgr_complete cfg st)
      | s # queue \<Rightarrow>
          (case run cfg web s (st\<lparr>suites := queue\<rparr>) of
             None \<Rightarrow> None
           | Some st1 \<Rightarrow> runNext cfg web st1))"

declare runNext.simps [code]

text \<open>
  \<open>init\<close> for the suites that \<open>pjs.addSuite\<close> has collected, each with its title (if
  it has one), its URLs and its options. Without a suite \<open>init\<close> fails.
\<close>

datatype fatal = NoSuites

definition init_state :: "'p rstate" where
  "init_state = \<lparr>logged = [], w_count = 0, w_items = [], firstWrite = True, lastWrite = False,
     written = [], saved = [], suites = [], visited = {}, sub_i = 0, opened = []\<rparr>"

fun make_suites :: "nat \<Rightarrow> (string option \<times> string list \<times> 'p options) list \<Rightarrow> 'p suite list" where
  "make_suites i [] = []"
| "make_suites i ((t, us, os) # rest) =
     ScraperSuite (case t of None \<Rightarrow> ''Suite '' @ show_nat i
                   | Some n \<Rightarrow> if n \<noteq> [] then n else ''Suite '' @ show_nat i) us os
     # make_suites (Suc i) rest"

definition init :: "config \<Rightarrow> 'p web \<Rightarrow> (string option \<times> string list \<times> 'p options) list
    \<Rightarrow> (fatal + 'p rstate) option" where
  "init cfg web confs =
     (if confs = [] then Some (Inl NoSuites)
      else map_option Inr (runNext cfg web (init_state\<lparr>suites := make_suites 0 confs\<rparr>)))"

section \<open>The CSV formatter\<close>



definition makeRow :: "string list \<Rightarrow> string" where
  "makeRow a = js_join '','' (map (\<lambda>x. stringify (JStr x)) a)"

definition csv_delimiter :: string where
  "csv_delimiter = [CHR 0x0D, CHR 0x0A]"

definition csv_start :: "string list option \<Rightarrow> string" where
  "csv_start flds = (case flds of None \<Rightarrow> [] | Some fs \<Rightarrow> makeRow fs @ csv_delimiter)"

definition csv_end :: string where
  "csv_end = []"









section \<open>Notions of the specification\<close>

text \<open>
  The framing of a run's flushes as the specification words it: the first flush begins
  with the start token, every later one with the delimiter token, and the last flush of a
  finished run ends with the end token. A flush's body is its batch, formatted and joined.
\<close>

definition batch_body :: "formatter \<Rightarrow> jsval list \<Rightarrow> string" where
  "batch_body fm batch = js_join (f_delimiter fm) (map (f_format fm) batch)"

definition framing :: "formatter \<Rightarrow> bool \<Rightarrow> string list \<Rightarrow> string list" where
  "framing fm fin bodies =
     map (\<lambda>k. (if k = 0 then f_start fm else f_delimiter fm) @ bodies ! k
              @ (if fin \<and> Suc k = length bodies then f_end fm else []))
       [0..<length bodies]"

text \<open>The writer has flushed the batches \<open>bs\<close>, in this order, and is not finished.\<close>

definition flushed :: "formatter \<Rightarrow> ('a wstate_scheme) \<Rightarrow> jsval list list \<Rightarrow> bool" where
  "flushed fm st bs \<longleftrightarrow>
     \<not> lastWrite st \<and> (firstWrite st \<longleftrightarrow> bs = []) \<and>
     written st = framing fm False (map (batch_body fm) bs)"

text \<open>
  Readiness polling as the specification words it. The interval timer's tick \<open>k > 0\<close>
  fires when the readiness predicate holds there or the elapsed time accumulated before it,
  \<open>k - 1\<close> intervals, exceeds the limit. Extraction is due at tick 0, right after the
  load, when the predicate holds there, and otherwise at the first tick that fires.
\<close>

definition tick_fires :: "config \<Rightarrow> (nat \<Rightarrow> bool) \<Rightarrow> nat \<Rightarrow> bool" where
  "tick_fires cfg rdy k \<longleftrightarrow> rdy k \<or> (k - 1) * timeoutInterval cfg > timeoutLimit cfg"

definition extraction_tick :: "config \<Rightarrow> (nat \<Rightarrow> bool) \<Rightarrow> nat \<Rightarrow> bool" where
  "extraction_tick cfg rdy k \<longleftrightarrow>
     (if rdy 0 then k = 0
      else 0 < k \<and> tick_fires cfg rdy k \<and> (\<forall>j \<in> {1..<k}. \<not> tick_fires cfg rdy j))"

text \<open>
  A child suite of \<open>s\<close> as the specification words it, but for a \<open>maxDepth\<close> of 0: one
  level deeper, with the same options, made only while the depth of \<open>s\<close> is below its
  \<open>maxDepth\<close>, and so itself within it.
\<close>

definition child_of :: "'p suite \<Rightarrow> 'p suite \<Rightarrow> bool" where
  "child_of s child \<longleftrightarrow>
     depth child = depth s + 1 \<and> opts child = opts s \<and>
     (case maxDepth (opts s) of None \<Rightarrow> True
      | Some m \<Rightarrow> m = 0 \<or> (depth s < m \<and> depth child \<le> m))"

text \<open>A suite with its \<open>maxDepth\<close> option taken away.\<close>

definition unset_maxDepth :: "'p suite \<Rightarrow> 'p suite" where
  "unset_maxDepth s = s\<lparr>opts := (opts s)\<lparr>maxDepth := None\<rparr>\<rparr>"






section \<open>Example inputs\<close>

text \<open>
  Pages without content. \<open>every_page\<close> loads every URL, \<open>all_but_a\<close> every URL but
  \<open>a\<close>. The suites of \<open>links_to us md\<close> are ready at once, scrape nothing and find the
  links \<open>us\<close> on every page; those of \<open>one_item\<close> scrape one item from every page and
  follow no links; those of \<open>never_ready\<close> do the same on pages that are never ready.
\<close>

definition every_page :: "unit web" where
  "every_page url = Some (\<lambda>n. ())"

definition all_but_a :: "unit web" where
  "all_but_a url = (if url = ''a'' then None else Some (\<lambda>n. ()))"

definition links_to :: "string list \<Rightarrow> nat option \<Rightarrow> unit options" where
  "links_to us md = \<lparr>ready = (\<lambda>p. True), scrapable = (\<lambda>p. True), scrapers = [],
     moreUrls = Some (\<lambda>p. Some us), maxDepth = md\<rparr>"

definition one_item :: "unit options" where
  "one_item = \<lparr>ready = (\<lambda>p. True), scrapable = (\<lambda>p. True), scrapers = [\<lambda>p. JNum 7],
     moreUrls = None, maxDepth = None\<rparr>"

definition never_ready :: "unit options" where
  "never_ready = \<lparr>ready = (\<lambda>p. False), scrapable = (\<lambda>p. True), scrapers = [\<lambda>p. JNum 7],
     moreUrls = None, maxDepth = None\<rparr>"

text \<open>
  Pages that show the number of the evaluation that finds them, and suites that are never
  ready on them and scrape that number.
\<close>

definition ticking_page :: "nat web" where
  "ticking_page url = Some (\<lambda>n. n)"

definition tick_item :: "nat options" where
  "tick_item = \<lparr>ready = (\<lambda>p. False), scrapable = (\<lambda>p. True), scrapers = [\<lambda>p. JNum (int p)],
     moreUrls = None, maxDepth = None\<rparr>"

text \<open>
  Pages that are their URL, and suites that find on every page but \<open>c\<close> the link
  \<open>c\<close>, and on \<open>c\<close> none.
\<close>

definition page_named :: "string web" where
  "page_named url = Some (\<lambda>n. url)"

definition links_to_c :: "string options" where
  "links_to_c = \<lparr>ready = (\<lambda>p. True), scrapable = (\<lambda>p. True), scrapers = [],
     moreUrls = Some (\<lambda>p. Some (if p = ''c'' then [] else [''c''])), maxDepth = None\<rparr>"

section \<open>The batching writer: \<open>add\<close>, \<open>count\<close> and the framing tokens\<close>

lemma writeBatch_fields:
  "w_items (writeBatch cfg batch st) = w_items st"
  "w_count (writeBatch cfg batch st) = w_count st"
  "lastWrite (writeBatch cfg batch st) = lastWrite st"
  "firstWrite (writeBatch cfg batch st) = False"
  "written (writeBatch cfg batch st) = written st @
     [(if firstWrite st then f_start (cfg_formatter cfg) else f_delimiter (cfg_formatter cfg))
      @ js_join (f_delimiter (cfg_formatter cfg)) (map (f_format (cfg_formatter cfg)) batch)
      @ (if lastWrite st then f_end (cfg_formatter cfg) else [])]"
  by (simp_all add: writeBatch_def log_msg_def Let_def)

lemma arrify_falsy: "\<not> truthy i \<Longrightarrow> arrify i = []"
  by (cases i) auto

lemma w_add_noflush:
  "truthy i \<Longrightarrow>
   \<not> (\<exists>b. batchSize cfg = Some b \<and> 0 < b \<and> b < length (w_items st @ arrify i)) \<Longrightarrow>
   w_add cfg i st =
     st\<lparr>w_count := w_count st + length (arrify i), w_items := w_items st @ arrify i\<rparr>"
  by (auto simp: w_add_def Let_def split: option.splits)

lemma w_add_flush:
  "truthy i \<Longrightarrow> batchSize cfg = Some b \<Longrightarrow> 0 < b \<Longrightarrow> b < length (w_items st @ arrify i) \<Longrightarrow>
   w_add cfg i st = writeBatch cfg (take b (w_items st @ arrify i))
      (st\<lparr>w_count := w_count st + length (arrify i), w_items := drop b (w_items st @ arrify i)\<rparr>)"
  by (simp add: w_add_def Let_def)

text \<open>
  C4, as the code has it. A call of \<open>add\<close> with a truthy argument appends the argument,
  made a list by \<open>arrify\<close>, to the buffer and adds its length to the count. If a batch
  size \<open>b > 0\<close> is configured and the buffer is then longer than \<open>b\<close>, the call flushes
  exactly one batch, the oldest \<open>b\<close> items, and keeps the rest; in every other case it
  flushes nothing. A call with a falsy argument changes nothing, whatever the buffer holds.
\<close>

theorem w_add_appends_and_flushes_one_batch:
  "(truthy i \<longrightarrow>
     (let buf = w_items st @ arrify i; st' = w_add cfg i st in
        w_count st' = w_count st + length (arrify i) \<and>
        (case batchSize cfg of
           None \<Rightarrow> w_items st' = buf \<and> written st' = written st
         | Some b \<Rightarrow>
             if 0 < b \<and> b < length buf
             then st' = writeBatch cfg (take b buf)
                          (st\<lparr>w_count := w_count st + length (arrify i), w_items := drop b buf\<rparr>)
                  \<and> length (take b buf) = b \<and> w_items st' = drop b buf
                  \<and> take b buf @ w_items st' = buf
                  \<and> length (written st') = Suc (length (written st))
             else w_items st' = buf \<and> written st' = written st)))
   \<and> (\<not> truthy i \<longrightarrow> w_add cfg i st = st)"
proof (intro conjI impI)
  assume t: "truthy i"
  show "let buf = w_items st @ arrify i; st' = w_add cfg i st in
        w_count st' = w_count st + length (arrify i) \<and>
        (case batchSize cfg of
           None \<Rightarrow> w_items st' = buf \<and> written st' = written st
         | Some b \<Rightarrow>
             if 0 < b \<and> b < length buf
             then st' = writeBatch cfg (take b buf)
                          (st\<lparr>w_count := w_count st + length (arrify i), w_items := drop b buf\<rparr>)
                  \<and> length (take b buf) = b \<and> w_items st' = drop b buf
                  \<and> take b buf @ w_items st' = buf
                  \<and> length (written st') = Suc (length (written st))
             else w_items st' = buf \<and> written st' = written st)"
  proof (cases "\<exists>b. batchSize cfg = Some b \<and> 0 < b \<and> b < length (w_items st @ arrify i)")
    case True
    then obtain b where b: "batchSize cfg = Some b" "0 < b" "b < length (w_items st @ arrify i)"
      by blast
    show ?thesis
      unfolding Let_def w_add_flush [OF t b] using b
      by (simp add: writeBatch_fields del: take_append drop_append)
  next
    case False
    show ?thesis
      unfolding Let_def w_add_noflush [OF t False] using False
      by (auto split: option.splits)
  qed
next
  assume "\<not> truthy i"
  then show "w_add cfg i st = st" by (simp add: w_add_def)
qed

text \<open>
  The theorem at a writer with batch size 2: seven items arrive in one call, two are
  flushed and five stay; a following call with \<open>null\<close> leaves the writer as it is.
\<close>

theorem w_add_appends_and_flushes_one_batch_witness:
  "truthy (JArr [JNum 1, JNum 2, JNum 3, JNum 4, JNum 5, JNum 6, JNum 7]) \<and>
   w_count (w_add (default_config\<lparr>batchSize := Some 2\<rparr>)
      (JArr [JNum 1, JNum 2, JNum 3, JNum 4, JNum 5, JNum 6, JNum 7]) new_writer) = 7 \<and>
   w_items (w_add (default_config\<lparr>batchSize := Some 2\<rparr>)
      (JArr [JNum 1, JNum 2, JNum 3, JNum 4, JNum 5, JNum 6, JNum 7]) new_writer)
     = [JNum 3, JNum 4, JNum 5, JNum 6, JNum 7] \<and>
   length (written (w_add (default_config\<lparr>batchSize := Some 2\<rparr>)
      (JArr [JNum 1, JNum 2, JNum 3, JNum 4, JNum 5, JNum 6, JNum 7]) new_writer)) = 1 \<and>
   \<not> truthy JNull \<and>
   w_add (default_config\<lparr>batchSize := Some 2\<rparr>) JNull new_writer = new_writer"
  using w_add_appends_and_flushes_one_batch
          [of "JArr [JNum 1, JNum 2, JNum 3, JNum 4, JNum 5, JNum 6, JNum 7]" new_writer
              "default_config\<lparr>batchSize := Some 2\<rparr>"]
        w_add_appends_and_flushes_one_batch
          [of JNull new_writer "default_config\<lparr>batchSize := Some 2\<rparr>"]
  by (simp add: Let_def new_writer_def default_config_def w_add_def writeBatch_def log_msg_def)

text \<open>
  C4 as it is worded fails for a falsy argument. With batch size 2, a call with seven
  items leaves five in the buffer; the buffer is longer than the batch size when \<open>null\<close>
  is added next, and nothing is flushed.
\<close>

theorem w_add_falsy_counterexample:
  "batchSize (default_config\<lparr>batchSize := Some 2\<rparr>) = Some 2 \<and>
   length (w_items (w_add (default_config\<lparr>batchSize := Some 2\<rparr>)
      (JArr [JNum 1, JNum 2, JNum 3, JNum 4, JNum 5, JNum 6, JNum 7]) new_writer) @ arrify JNull) = 5 \<and>
   written (w_add (default_config\<lparr>batchSize := Some 2\<rparr>) JNull
      (w_add (default_config\<lparr>batchSize := Some 2\<rparr>)
         (JArr [JNum 1, JNum 2, JNum 3, JNum 4, JNum 5, JNum 6, JNum 7]) new_writer))
     = written (w_add (default_config\<lparr>batchSize := Some 2\<rparr>)
         (JArr [JNum 1, JNum 2, JNum 3, JNum 4, JNum 5, JNum 6, JNum 7]) new_writer)"
  by (simp add: w_add_def Let_def new_writer_def default_config_def writeBatch_def log_msg_def)

lemma framing_snoc:
  "framing fm fin (bodies @ [b]) =
     framing fm False bodies @
       [(if bodies = [] then f_start fm else f_delimiter fm) @ b @ (if fin then f_end fm else [])]"
  by (auto simp: framing_def nth_append)

lemma flushed_add:
  assumes "flushed (cfg_formatter cfg) st bs"
  shows "\<exists>bs'. flushed (cfg_formatter cfg) (w_add cfg i st) bs' \<and>
           concat bs' @ w_items (w_add cfg i st) = concat bs @ w_items st @ arrify i"
proof (cases "truthy i")
  case False
  with assms show ?thesis by (auto simp: w_add_def arrify_falsy)
next
  case True
  show ?thesis
  proof (cases "\<exists>b. batchSize cfg = Some b \<and> 0 < b \<and> b < length (w_items st @ arrify i)")
    case False
    from w_add_noflush [OF True False] assms show ?thesis by (auto simp: flushed_def)
  next
    case b: True
    then obtain b where b: "batchSize cfg = Some b" "0 < b" "b < length (w_items st @ arrify i)"
      by blast
    let ?buf = "w_items st @ arrify i"
    note eq = w_add_flush [OF True b]
    have "flushed (cfg_formatter cfg) (w_add cfg i st) (bs @ [take b ?buf])"
      using assms unfolding eq flushed_def
      by (simp add: writeBatch_fields framing_snoc batch_body_def del: take_append drop_append)
    moreover have "concat (bs @ [take b ?buf]) @ w_items (w_add cfg i st)
        = concat bs @ w_items st @ arrify i"
      unfolding eq by (simp add: writeBatch_fields del: take_append drop_append)
    ultimately show ?thesis by blast
  qed
qed

lemma flushed_fold:
  "flushed (cfg_formatter cfg) st bs \<Longrightarrow>
   \<exists>bs'. flushed (cfg_formatter cfg) (fold (w_add cfg) is st) bs' \<and>
     concat bs' @ w_items (fold (w_add cfg) is st) = concat bs @ w_items st @ concat (map arrify is)"
proof (induction "is" arbitrary: st bs)
  case Nil
  then show ?case by auto
next
  case (Cons i "is")
  from flushed_add [OF Cons.prems, of i] obtain bs1 where
    1: "flushed (cfg_formatter cfg) (w_add cfg i st) bs1"
    and 2: "concat bs1 @ w_items (w_add cfg i st) = concat bs @ w_items st @ arrify i"
    by blast
  from Cons.IH [OF 1] obtain bs2 where
    3: "flushed (cfg_formatter cfg) (fold (w_add cfg) is (w_add cfg i st)) bs2"
    and 4: "concat bs2 @ w_items (fold (w_add cfg) is (w_add cfg i st))
           = concat bs1 @ w_items (w_add cfg i st) @ concat (map arrify is)"
    by blast
  from 2 have "concat bs1 @ w_items (w_add cfg i st) @ concat (map arrify is)
      = concat bs @ w_items st @ arrify i @ concat (map arrify is)"
    by (metis append.assoc)
  with 3 4 show ?case by auto
qed

lemma flushed_new: "flushed fm new_writer []"
  by (simp add: flushed_def new_writer_def framing_def)

lemma flushed_finish:
  "flushed (cfg_formatter cfg) st bs \<Longrightarrow>
   written (w_finish cfg st) =
     framing (cfg_formatter cfg) True (map (batch_body (cfg_formatter cfg)) (bs @ [w_items st]))"
  by (simp add: flushed_def w_finish_def Let_def writeBatch_fields framing_snoc batch_body_def)

text \<open>
  C5. A run of the batching writer is a new writer, any calls of \<open>add\<close>, and then
  \<open>finish\<close>. The flushes of the calls of \<open>add\<close> are batches \<open>bs\<close> framed with the
  start token on the first, the delimiter token on the others and no end token; \<open>finish\<close>
  adds one more flush, of the buffer that is left (empty or not), and that flush alone
  ends with the end token. Batches and buffer together are the items added, in order.
\<close>

theorem writer_run_framing:
  "\<exists>bs. let fm = cfg_formatter cfg; st = fold (w_add cfg) is new_writer in
     written st = framing fm False (map (batch_body fm) bs) \<and>
     written (w_finish cfg st) = framing fm True (map (batch_body fm) (bs @ [w_items st])) \<and>
     concat bs @ w_items st = concat (map arrify is)"
proof -
  from flushed_fold [OF flushed_new, of cfg "is"] obtain bs where
    1: "flushed (cfg_formatter cfg) (fold (w_add cfg) is new_writer) bs"
    and 2: "concat bs @ w_items (fold (w_add cfg) is new_writer) = concat (map arrify is)"
    by (auto simp: new_writer_def)
  from 1 have "written (fold (w_add cfg) is new_writer)
      = framing (cfg_formatter cfg) False (map (batch_body (cfg_formatter cfg)) bs)"
    by (simp add: flushed_def)
  with flushed_finish [OF 1] 2 show ?thesis by (auto simp: Let_def)
qed

section \<open>The steps of the runner\<close>

lemma itemfile_save_rfields:
  "suites (itemfile_save cfg x st) = suites st"
  "visited (itemfile_save cfg x st) = visited st"
  "sub_i (itemfile_save cfg x st) = sub_i st"
  "opened (itemfile_save cfg x st) = opened st"
  by (simp_all add: itemfile_save_def Let_def)

lemma fold_itemfile_save_rfields:
  "suites (fold (itemfile_save cfg) xs st) = suites st \<and>
   visited (fold (itemfile_save cfg) xs st) = visited st \<and>
   sub_i (fold (itemfile_save cfg) xs st) = sub_i st \<and>
   opened (fold (itemfile_save cfg) xs st) = opened st"
  by (induction xs arbitrary: st) (simp_all add: itemfile_save_rfields)

lemma writer_add_rfields:
  "suites (writer_add cfg i st) = suites st"
  "visited (writer_add cfg i st) = visited st"
  "sub_i (writer_add cfg i st) = sub_i st"
  "opened (writer_add cfg i st) = opened st"
  by (simp_all add: writer_add_def itemfile_add_def w_add_def writeBatch_def log_msg_def Let_def
        fold_itemfile_save_rfields split: writer_kind.splits option.splits)

lemma fold_writer_add_rfields:
  "suites (fold (\<lambda>scraper. writer_add cfg (scraper p)) fs st) = suites st \<and>
   visited (fold (\<lambda>scraper. writer_add cfg (scraper p)) fs st) = visited st \<and>
   sub_i (fold (\<lambda>scraper. writer_add cfg (scraper p)) fs st) = sub_i st \<and>
   opened (fold (\<lambda>scraper. writer_add cfg (scraper p)) fs st) = opened st"
  by (induction fs arbitrary: st) (simp_all add: writer_add_rfields)

lemma scrapePage_rfields:
  "suites (scrapePage cfg s p st) = suites st"
  "visited (scrapePage cfg s p st) = visited st"
  "sub_i (scrapePage cfg s p st) = sub_i st"
  "opened (scrapePage cfg s p st) = opened st"
  by (simp_all add: scrapePage_def fold_writer_add_rfields)

lemma complete_fields:
  "visited (complete s page st) = visited st"
  "opened (complete s page st) = opened st"
  "w_items (complete s page st) = w_items st"
  "w_count (complete s page st) = w_count st"
  "written (complete s page st) = written st"
  "saved (complete s page st) = saved st"
  by (simp_all add: complete_def Let_def log_msg_def split: option.splits)

lemma complete_suites:
  "suites (complete s page st) = suites st \<or>
   (\<exists>child. suites (complete s page st) = suites st @ [child] \<and>
      depth child = depth s + 1 \<and> opts child = opts s \<and>
      (case maxDepth (opts s) of None \<Rightarrow> True
       | Some m \<Rightarrow> m = 0 \<or> (depth s < m \<and> depth child \<le> m)))"
  by (auto simp: complete_def Let_def ScraperSuite_def log_msg_def split: option.splits)

lemma complete_children:
  "\<exists>new. suites (complete s page st) = suites st @ new \<and> list_all (child_of s) new"
proof -
  from complete_suites [of s page st] show ?thesis
  proof
    assume "suites (complete s page st) = suites st"
    then show ?thesis by (intro exI [of _ "[]"]) simp
  next
    assume "\<exists>child. suites (complete s page st) = suites st @ [child] \<and>
      depth child = depth s + 1 \<and> opts child = opts s \<and>
      (case maxDepth (opts s) of None \<Rightarrow> True
       | Some m \<Rightarrow> m = 0 \<or> (depth s < m \<and> depth child \<le> m))"
    then obtain child where "suites (complete s page st) = suites st @ [child]" "child_of s child"
      unfolding child_of_def by blast
    then show ?thesis by (intro exI [of _ "[child]"]) simp
  qed
qed

lemma complete_no_hook: "moreUrls (opts s) = None \<Longrightarrow> complete s page st = st"
  by (simp add: complete_def split: option.splits)

lemma poll_first:
  "k \<le> n \<Longrightarrow>
   \<forall>j. k \<le> j \<and> j < n \<longrightarrow> \<not> (rdy j \<or> e + (j - k) * timeoutInterval cfg > timeoutLimit cfg) \<Longrightarrow>
   rdy n \<or> e + (n - k) * timeoutInterval cfg > timeoutLimit cfg \<Longrightarrow>
   poll cfg rdy k e = Some n"
proof (induction "n - k" arbitrary: k e)
  case 0
  then have "k = n" by simp
  with 0 show ?case by (subst poll.simps) simp
next
  case (Suc d)
  then have kn: "k < n" by simp
  with Suc.prems(2) have nf: "\<not> (rdy k \<or> e > timeoutLimit cfg)"
    by (metis add.right_neutral diff_self_eq_0 mult_zero_left order_refl)
  have "poll cfg rdy (Suc k) (e + timeoutInterval cfg) = Some n"
  proof (rule Suc.hyps(1))
    show "d = n - Suc k" using Suc.hyps(2) by simp
    show "Suc k \<le> n" using kn by simp
    show "\<forall>j. Suc k \<le> j \<and> j < n \<longrightarrow>
        \<not> (rdy j \<or> timeoutLimit cfg < e + timeoutInterval cfg + (j - Suc k) * timeoutInterval cfg)"
    proof (intro allI impI)
      fix j assume j: "Suc k \<le> j \<and> j < n"
      then have "j - k = Suc (j - Suc k)" by arith
      with Suc.prems(2) j show "\<not> (rdy j \<or> timeoutLimit cfg < e + timeoutInterval cfg + (j - Suc k) * timeoutInterval cfg)"
        by (metis (no_types, lifting) Suc_leD add.assoc mult_Suc)
    qed
    have "n - k = Suc (n - Suc k)" using kn by simp
    with Suc.prems(3) show "rdy n \<or> timeoutLimit cfg < e + timeoutInterval cfg + (n - Suc k) * timeoutInterval cfg"
      by (simp add: add.assoc)
  qed
  with nf show ?case by (subst poll.simps) simp
qed

lemma poll_extraction_tick:
  assumes "\<not> rdy 0" "extraction_tick cfg rdy k"
  shows "poll cfg rdy 1 0 = Some k"
proof (rule poll_first)
  from assms show "1 \<le> k" by (simp add: extraction_tick_def)
  from assms show "\<forall>j. 1 \<le> j \<and> j < k \<longrightarrow> \<not> (rdy j \<or> timeoutLimit cfg < 0 + (j - 1) * timeoutInterval cfg)"
    by (auto simp: extraction_tick_def tick_fires_def)
  from assms show "rdy k \<or> timeoutLimit cfg < 0 + (k - 1) * timeoutInterval cfg"
    by (auto simp: extraction_tick_def tick_fires_def)
qed

lemma extraction_tick_exists:
  assumes "0 < timeoutInterval cfg"
  shows "\<exists>k. extraction_tick cfg rdy k"
proof (cases "rdy 0")
  case True
  then show ?thesis by (auto simp: extraction_tick_def)
next
  case False
  from assms have "1 \<le> timeoutInterval cfg" by simp
  then have "(timeoutLimit cfg + 1) * 1 \<le> (timeoutLimit cfg + 1) * timeoutInterval cfg"
    by (rule mult_le_mono2)
  then have "timeoutLimit cfg < (timeoutLimit cfg + 1) * timeoutInterval cfg"
    by simp
  then have "0 < timeoutLimit cfg + 2 \<and> tick_fires cfg rdy (timeoutLimit cfg + 2)"
    by (simp add: tick_fires_def)
  then have ex: "\<exists>n. 0 < n \<and> tick_fires cfg rdy n" by blast
  define k where "k = (LEAST n. 0 < n \<and> tick_fires cfg rdy n)"
  from ex have 1: "0 < k \<and> tick_fires cfg rdy k"
    unfolding k_def by (rule LeastI_ex)
  have 2: "\<And>j. j < k \<Longrightarrow> \<not> (0 < j \<and> tick_fires cfg rdy j)"
    unfolding k_def by (rule not_less_Least)
  have "\<forall>j \<in> {1..<k}. \<not> tick_fires cfg rdy j"
  proof
    fix j assume "j \<in> {1..<k}"
    then have "j < k" "0 < j" by simp_all
    with 2 [of j] show "\<not> tick_fires cfg rdy j" by blast
  qed
  with False 1 have "extraction_tick cfg rdy k"
    by (simp add: extraction_tick_def)
  then show ?thesis ..
qed

lemma scrape_at_tick:
  assumes "web url = Some pg" "extraction_tick cfg (\<lambda>n. ready (opts s) (pg n)) k"
  shows "scrape cfg web s url st =
       Some (complete s (Some (pg k)) (scrapePage cfg s (pg k)
         (log_msg (''Scraping '' @ url)
            (st\<lparr>opened := opened st @ [url], visited := insert url (visited st)\<rparr>))))"
proof (cases "ready (opts s) (pg 0)")
  case True
  with assms(2) have "k = 0" by (simp add: extraction_tick_def)
  with True assms(1) show ?thesis
    by (simp add: scrape_def Let_def)
next
  case False
  from poll_extraction_tick [OF False assms(2)] False assms(1) show ?thesis
    by (simp add: scrape_def Let_def)
qed

lemma scrape_at_extraction_tick:
  assumes "web url = Some pg" "0 < timeoutInterval cfg"
  shows "\<exists>k. extraction_tick cfg (\<lambda>n. ready (opts s) (pg n)) k \<and>
     scrape cfg web s url st =
       Some (complete s (Some (pg k)) (scrapePage cfg s (pg k)
         (log_msg (''Scraping '' @ url)
            (st\<lparr>opened := opened st @ [url], visited := insert url (visited st)\<rparr>))))"
proof -
  from extraction_tick_exists [OF assms(2)] obtain k where
    k: "extraction_tick cfg (\<lambda>n. ready (opts s) (pg n)) k" by blast
  show ?thesis
  proof (cases "ready (opts s) (pg 0)")
    case True
    with k have "k = 0" by (simp add: extraction_tick_def)
    with True k assms(1) show ?thesis
      by (intro exI [of _ 0]) (simp add: scrape_def Let_def)
  next
    case False
    from poll_extraction_tick [OF False k] False k assms(1) show ?thesis
      by (intro exI [of _ k]) (simp add: scrape_def Let_def)
  qed
qed

lemma poll_diverges:
  assumes "poll cfg rdy k e = Some n"
  shows "\<not> (timeoutInterval cfg = 0 \<and> (\<forall>j. \<not> rdy j) \<and> e \<le> timeoutLimit cfg)"
proof (rule poll.raw_induct [where P = "\<lambda>cfg rdy k e n.
      \<not> (timeoutInterval cfg = 0 \<and> (\<forall>j. \<not> rdy j) \<and> e \<le> timeoutLimit cfg)", OF _ assms], goal_cases)
  case (1 poll' cfg rdy k e n)
  show ?case
  proof
    assume a: "timeoutInterval cfg = 0 \<and> (\<forall>j. \<not> rdy j) \<and> e \<le> timeoutLimit cfg"
    with 1(2) have "poll' cfg rdy (Suc k) (e + timeoutInterval cfg) = Some n"
      by (simp split: if_splits)
    from 1(1) [OF this] a show False by simp
  qed
qed

lemma scrape_shape:
  assumes "scrape cfg web s url st = Some st'"
  shows "\<exists>page t. st' = complete s page t \<and> suites t = suites st"
proof (cases "web url")
  case None
  with assms have "st' = complete s None (log_error (''Page did not load: '' @ url) (st\<lparr>opened := opened st @ [url]\<rparr>))"
    by (simp add: scrape_def Let_def)
  moreover have "suites (log_error (''Page did not load: '' @ url) (st\<lparr>opened := opened st @ [url]\<rparr>)) = suites st"
    by (simp add: log_error_def)
  ultimately show ?thesis by blast
next
  case (Some pg)
  let ?st1 = "log_msg (''Scraping '' @ url) (st\<lparr>opened := opened st @ [url], visited := insert url (visited st)\<rparr>)"
  from assms Some obtain k where "st' = complete s (Some (pg k)) (scrapePage cfg s (pg k) ?st1)"
    by (auto simp: scrape_def Let_def split: if_splits option.splits)
  moreover have "suites (scrapePage cfg s (pg k) ?st1) = suites st"
    by (simp add: scrapePage_rfields log_msg_def)
  ultimately show ?thesis by blast
qed


lemma scrape_opens:
  assumes "0 < timeoutInterval cfg"
  shows "\<exists>st'. scrape cfg web s url st = Some st' \<and> opened st' = opened st @ [url] \<and>
     visited st' = (case web url of None \<Rightarrow> visited st | Some pg \<Rightarrow> insert url (visited st))"
proof (cases "web url")
  case None
  then show ?thesis
    by (simp add: scrape_def Let_def complete_def log_error_def)
next
  case (Some pg)
  from scrape_at_extraction_tick [where web = web and url = url and s = s and st = st, OF Some assms] obtain k where
    "scrape cfg web s url st =
       Some (complete s (Some (pg k)) (scrapePage cfg s (pg k)
         (log_msg (''Scraping '' @ url)
            (st\<lparr>opened := opened st @ [url], visited := insert url (visited st)\<rparr>))))"
    by blast
  with Some show ?thesis
    by (simp add: complete_fields scrapePage_rfields log_msg_def)
qed


lemma scrape_children:
  assumes "scrape cfg web s url st = Some st'"
  shows "\<exists>new. suites st' = suites st @ new \<and> list_all (child_of s) new"
proof -
  from scrape_shape [OF assms] obtain page t where t: "st' = complete s page t" "suites t = suites st"
    by blast
  from complete_children [of s page t] t show ?thesis
    by auto
qed

lemma scrape_no_hook:
  assumes "moreUrls (opts s) = None" "scrape cfg web s url st = Some st'"
  shows "suites st' = suites st"
proof -
  from scrape_shape [OF assms(2)] obtain page t where "st' = complete s page t" "suites t = suites st"
    by blast
  with assms(1) show ?thesis by (simp add: complete_no_hook)
qed


lemma run_urls_opens:
  assumes "0 < timeoutInterval cfg"
  shows "\<exists>st'. run_urls cfg web s us st = Some st' \<and> opened st' = opened st @ us \<and>
     visited st' = visited st \<union> {u \<in> set us. web u \<noteq> None}"
proof (induction us arbitrary: st)
  case Nil
  show ?case by (simp add: log_msg_def)
next
  case (Cons u us)
  from scrape_opens [OF assms, of web s u st] obtain st1 where
    1: "scrape cfg web s u st = Some st1" "opened st1 = opened st @ [u]"
       "visited st1 = (case web u of None \<Rightarrow> visited st | Some pg \<Rightarrow> insert u (visited st))"
    by blast
  from Cons.IH [of st1] obtain st' where
    2: "run_urls cfg web s us st1 = Some st'" "opened st' = opened st1 @ us"
       "visited st' = visited st1 \<union> {u \<in> set us. web u \<noteq> None}"
    by blast
  from 1 2 show ?case
    by (auto split: option.splits)
qed


lemma run_urls_children:
  "run_urls cfg web s us st = Some st' \<Longrightarrow>
   \<exists>new. suites st' = suites st @ new \<and> list_all (child_of s) new"
proof (induction us arbitrary: st)
  case Nil
  then show ?case by (intro exI [of _ "[]"]) (auto simp: log_msg_def)
next
  case (Cons u us)
  from Cons.prems obtain st1 where 1: "scrape cfg web s u st = Some st1"
    and 2: "run_urls cfg web s us st1 = Some st'"
    by (auto split: option.splits)
  from scrape_children [OF 1] obtain n1 where n1: "suites st1 = suites st @ n1" "list_all (child_of s) n1"
    by blast
  from Cons.IH [OF 2] obtain n2 where n2: "suites st' = suites st1 @ n2" "list_all (child_of s) n2"
    by blast
  from n1 n2 show ?case by (intro exI [of _ "n1 @ n2"]) simp
qed

lemma run_urls_no_hook:
  "moreUrls (opts s) = None \<Longrightarrow> run_urls cfg web s us st = Some st' \<Longrightarrow> suites st' = suites st"
proof (induction us arbitrary: st)
  case Nil
  then show ?case by (auto simp: log_msg_def)
next
  case (Cons u us)
  from Cons.prems(2) obtain st1 where 1: "scrape cfg web s u st = Some st1"
    and 2: "run_urls cfg web s us st1 = Some st'"
    by (auto split: option.splits)
  from scrape_no_hook [OF Cons.prems(1) 1] Cons.IH [OF Cons.prems(1) 2] show ?case by simp
qed



lemma run_children:
  assumes "run cfg web s st = Some st'"
  shows "\<exists>new. suites st' = suites st @ new \<and> list_all (child_of s) new"
  using run_urls_children [of cfg web s "urls s" "log_msg (title s @ '' starting'') (st\<lparr>sub_i := 0\<rparr>)" st'] assms
  by (simp add: run_def log_msg_def)

lemma run_no_hook:
  assumes "moreUrls (opts s) = None" "0 < timeoutInterval cfg"
  shows "\<exists>st'. run cfg web s st = Some st' \<and> suites st' = suites st"
proof -
  from run_urls_opens [OF assms(2), of web s "urls s" "log_msg (title s @ '' starting'') (st\<lparr>sub_i := 0\<rparr>)"]
  obtain st' where r: "run_urls cfg web s (urls s) (log_msg (title s @ '' starting'') (st\<lparr>sub_i := 0\<rparr>)) = Some st'"
    by blast
  from run_urls_no_hook [OF assms(1) r] have "suites st' = suites st" by (simp add: log_msg_def)
  with r show ?thesis by (simp add: run_def)
qed



lemma runNext_no_hooks:
  assumes "0 < timeoutInterval cfg"
  shows "list_all (\<lambda>s. moreUrls (opts s) = None) (suites st) \<Longrightarrow> \<exists>st'. runNext cfg web st = Some st'"
proof (induction "length (suites st)" arbitrary: st)
  case 0
  then show ?case by (subst runNext.simps) simp
next
  case (Suc n)
  then obtain s queue where q: "suites st = s # queue" by (cases "suites st") auto
  with Suc.prems have h: "moreUrls (opts s) = None" and hq: "list_all (\<lambda>s. moreUrls (opts s) = None) queue"
    by simp_all
  from run_no_hook [OF h assms, of web "st\<lparr>suites := queue\<rparr>"] obtain st1 where
    r: "run cfg web s (st\<lparr>suites := queue\<rparr>) = Some st1" and s1: "suites st1 = queue"
    by auto
  from Suc.hyps(2) q s1 have "n = length (suites st1)" by simp
  from Suc.hyps(1) [OF this] hq s1 obtain st' where "runNext cfg web st1 = Some st'" by auto
  with q r show ?case by (subst runNext.simps) simp
qed

section \<open>Link discovery\<close>

text \<open>
  C2 fails on the code. Page \<open>a\<close> has been opened and is in \<open>visited\<close>; its
  link-discovery hook returns \<open>a\<close>, \<open>b\<close> and \<open>c\<close>. The child suite that is enqueued
  holds all three URLs, \<open>a\<close> among them: the filtered array is dropped.
\<close>

theorem complete_drops_filter:
  "map_option (\<lambda>st. (visited st, map urls (suites st)))
     (scrape default_config every_page
        (ScraperSuite ''Suite 0'' [''a''] (links_to [''a'', ''b'', ''c''] None)) ''a'' init_state)
   = Some ({''a''}, [[''a'', ''b'', ''c'']])"
  by (simp add: scrape_def every_page_def ScraperSuite_def links_to_def init_state_def
        complete_def scrapePage_def log_msg_def Let_def)

text \<open>
  C3, as the code has it. Link discovery either leaves the queue as it is or appends one
  child suite; the child has its parent's options and its parent's depth plus 1, and it
  is made only if \<open>maxDepth\<close> is not set, or is 0, or the parent's depth is below it. A
  child's depth is therefore within a \<open>maxDepth\<close> that is set and not 0. The run of a
  suite adds to the queue such children only.
\<close>

theorem complete_child_depth:
  "(suites (complete s page st) = suites st \<or>
    (\<exists>child. suites (complete s page st) = suites st @ [child] \<and>
       depth child = depth s + 1 \<and> opts child = opts s \<and>
       (case maxDepth (opts s) of None \<Rightarrow> True
        | Some m \<Rightarrow> m = 0 \<or> (depth s < m \<and> depth child \<le> m)))) \<and>
   (\<forall>st'. run cfg web s st = Some st' \<longrightarrow>
      (\<exists>new. suites st' = suites st @ new \<and> list_all (child_of s) new))"
  using complete_suites [of s page st] run_children [of cfg web s st]
  by blast

text \<open>
  The theorem at a suite of depth 2 with \<open>maxDepth\<close> 3, whose two pages both have a link:
  its run adds two children of depth 3.
\<close>

theorem complete_child_depth_witness:
  "\<exists>st'. run default_config page_named
       ((ScraperSuite ''Suite 0'' [''a'', ''b''] (links_to_c\<lparr>maxDepth := Some 3\<rparr>))\<lparr>depth := 2\<rparr>)
       init_state = Some st' \<and>
     map depth (suites st') = [3, 3] \<and>
     (\<exists>new. suites st' = suites (init_state :: string rstate) @ new \<and>
        list_all
          (child_of ((ScraperSuite ''Suite 0'' [''a'', ''b''] (links_to_c\<lparr>maxDepth := Some 3\<rparr>))\<lparr>depth := 2\<rparr>))
          new)"
proof -
  let ?s = "(ScraperSuite ''Suite 0'' [''a'', ''b''] (links_to_c\<lparr>maxDepth := Some 3\<rparr>))\<lparr>depth := 2\<rparr>"
  let ?i = "init_state :: string rstate"
  have "\<exists>st'. run default_config page_named ?s ?i = Some st' \<and> map depth (suites st') = [3, 3]"
    by (simp add: run_def scrape_def page_named_def links_to_c_def init_state_def
        ScraperSuite_def log_msg_def complete_def scrapePage_def default_config_def Let_def)
  then obtain st' where r: "run default_config page_named ?s ?i = Some st'"
    and d: "map depth (suites st') = [3, 3]" by (elim exE conjE)
  from complete_child_depth [of ?s "None" ?i default_config page_named] r
  have "\<exists>new. suites st' = suites ?i @ new \<and> list_all (child_of ?s) new"
    by simp
  with r d show ?thesis by (intro exI [of _ st']) simp
qed

text \<open>
  C3 as it is worded fails for a \<open>maxDepth\<close> of 0: a suite of depth 0 gets a child of
  depth 1.
\<close>

theorem maxDepth_zero_counterexample:
  "maxDepth (opts (ScraperSuite ''Suite 0'' [''a''] (links_to [''b''] (Some 0)))) = Some 0 \<and>
   map depth (suites (complete (ScraperSuite ''Suite 0'' [''a''] (links_to [''b''] (Some 0)))
       (Some ()) init_state)) = [1]"
  by (simp add: ScraperSuite_def links_to_def init_state_def complete_def log_msg_def Let_def show_nat.simps)

text \<open>
  C10. For a suite whose \<open>maxDepth\<close> is 0, link discovery does what it does for the same
  suite without \<open>maxDepth\<close>: the queues agree up to the \<open>maxDepth\<close> that the suites carry,
  and everything else is equal. Whatever the suite's depth, a hook that returns a non-empty
  list gets a child suite.
\<close>

theorem maxDepth_zero_as_unset:
  assumes "maxDepth (opts s) = Some 0"
  shows "map unset_maxDepth (suites (complete s page st))
           = map unset_maxDepth (suites (complete (unset_maxDepth s) page st)) \<and>
         (complete s page st)\<lparr>suites := []\<rparr> = (complete (unset_maxDepth s) page st)\<lparr>suites := []\<rparr> \<and>
         (\<forall>p hook found. page = Some p \<and> moreUrls (opts s) = Some hook \<and> hook p = Some found \<and> found \<noteq> []
            \<longrightarrow> (\<exists>child. suites (complete s page st) = suites st @ [child] \<and>
                   depth child = depth s + 1 \<and> urls child = found \<and> opts child = opts s))"
  using assms
  by (auto simp: complete_def Let_def ScraperSuite_def log_msg_def unset_maxDepth_def split: option.splits)

text \<open>The theorem at a suite of depth 5 with \<open>maxDepth\<close> 0: its child has depth 6.\<close>

theorem maxDepth_zero_as_unset_witness:
  "maxDepth (opts ((ScraperSuite ''Suite 0'' [''a''] (links_to [''b''] (Some 0)))\<lparr>depth := 5\<rparr>)) = Some 0 \<and>
   map depth (suites (complete ((ScraperSuite ''Suite 0'' [''a''] (links_to [''b''] (Some 0)))\<lparr>depth := 5\<rparr>)
       (Some ()) init_state)) = [6] \<and>
   map depth (suites (complete (unset_maxDepth ((ScraperSuite ''Suite 0'' [''a''] (links_to [''b''] (Some 0)))\<lparr>depth := 5\<rparr>))
       (Some ()) init_state)) = [6]"
  using maxDepth_zero_as_unset [of "(ScraperSuite ''Suite 0'' [''a''] (links_to [''b''] (Some 0)))\<lparr>depth := 5\<rparr>" "Some ()" init_state]
  by (simp add: ScraperSuite_def links_to_def init_state_def complete_def log_msg_def Let_def unset_maxDepth_def)

section \<open>Readiness polling\<close>

text \<open>
  C7, as the code has it. For a URL that loads, if extraction is due at tick \<open>k\<close>, that
  is at once when the readiness predicate holds right after the load, and otherwise at the
  first tick of the timer at which the predicate holds or the accumulated elapsed time
  exceeds the limit, then \<open>scrape\<close> returns and the page is scraped once, as it is at tick
  \<open>k\<close>; link discovery and the rest of the run follow, the timeout is no failure. With a
  poll interval above 0 there is such a tick, whatever the predicate does.
\<close>

theorem scrape_extracts_once:
  "(web url = Some pg \<and> extraction_tick cfg (\<lambda>n. ready (opts s) (pg n)) k \<longrightarrow>
      scrape cfg web s url st =
        Some (complete s (Some (pg k)) (scrapePage cfg s (pg k)
          (log_msg (''Scraping '' @ url)
             (st\<lparr>opened := opened st @ [url], visited := insert url (visited st)\<rparr>))))) \<and>
   (0 < timeoutInterval cfg \<longrightarrow> (\<exists>n. extraction_tick cfg rdy n))"
  using scrape_at_tick [of web url pg cfg s k st] extraction_tick_exists [of cfg rdy]
  by blast

text \<open>
  The theorem with the interval of 300 and the limit of 3000 that the script sets: a page
  that is never ready is scraped at tick 12, the first one that finds more than 3000
  elapsed, and the item is the one that the page shows then.
\<close>

theorem scrape_extracts_once_witness:
  "ticking_page ''a'' = Some (\<lambda>n. n) \<and> 0 < timeoutInterval default_config \<and>
   extraction_tick default_config (\<lambda>n. ready (opts (ScraperSuite ''Suite 0'' [''a''] tick_item)) n) 12 \<and>
   (\<exists>st'. scrape default_config ticking_page (ScraperSuite ''Suite 0'' [''a''] tick_item) ''a'' init_state = Some st'
      \<and> w_items st' = [JNum 12] \<and> w_count st' = 1) \<and>
   (\<exists>n. extraction_tick default_config (\<lambda>n. False) n)"
proof -
  let ?s = "ScraperSuite ''Suite 0'' [''a''] tick_item"
  let ?i = "init_state :: nat rstate"
  have p: "ticking_page ''a'' = Some (\<lambda>n. n)" by (simp add: ticking_page_def)
  have i: "0 < timeoutInterval default_config" by (simp add: default_config_def)
  have "\<And>j. j \<in> {1..<12} \<Longrightarrow> \<not> 3000 < (j - 1) * (300::nat)"
    by (simp, arith)
  then have e: "extraction_tick default_config (\<lambda>n. ready (opts ?s) n) 12"
    by (simp add: extraction_tick_def tick_fires_def ScraperSuite_def tick_item_def default_config_def)
  note T = scrape_extracts_once [where web = ticking_page and url = "''a''" and pg = "\<lambda>n. n"
      and cfg = default_config and s = ?s and k = 12 and st = ?i and rdy = "\<lambda>n. False"]
  from T p e have "scrape default_config ticking_page ?s ''a'' ?i =
       Some (complete ?s (Some 12) (scrapePage default_config ?s 12
         (log_msg (''Scraping '' @ ''a'')
            (?i\<lparr>opened := opened ?i @ [''a''], visited := insert ''a'' (visited ?i)\<rparr>))))"
    by simp
  then have s: "\<exists>st'. scrape default_config ticking_page ?s ''a'' ?i = Some st'
        \<and> w_items st' = [JNum 12] \<and> w_count st' = 1"
    by (simp add: ScraperSuite_def tick_item_def default_config_def init_state_def complete_def
          scrapePage_def writer_add_def w_add_def log_msg_def Let_def)
  from T i have x: "\<exists>n. extraction_tick default_config (\<lambda>n. False) n"
    by simp
  from p i e s x show ?thesis
    by (intro conjI)
qed

text \<open>
  C7 as it is worded fails for a poll interval of 0. The elapsed time then stays 0 and
  never exceeds the limit: on a page that is never ready the timer runs for ever, and
  \<open>scrape\<close> has no result.
\<close>

theorem zero_interval_counterexample:
  "scrape (default_config\<lparr>timeoutInterval := 0\<rparr>) every_page
     (ScraperSuite ''Suite 0'' [''a''] never_ready) ''a'' init_state = None"
proof -
  have "poll (default_config\<lparr>timeoutInterval := 0\<rparr>) (\<lambda>k. False) 1 0 = None"
    using poll_diverges [of "default_config\<lparr>timeoutInterval := 0\<rparr>" "\<lambda>k. False" 1 0]
    by (cases "poll (default_config\<lparr>timeoutInterval := 0\<rparr>) (\<lambda>k. False) 1 0")
       (auto simp: default_config_def)
  then show ?thesis
    by (simp add: scrape_def every_page_def ScraperSuite_def never_ready_def Let_def)
qed

section \<open>The URLs that a run opens\<close>




section \<open>A page that does not load\<close>

text \<open>
  C8. When \<open>page.open\<close> reports a status other than success, \<open>scrape\<close> returns: it
  has logged the error and left the writer's buffer, count and output, the queue of suites
  (no link discovery, no child suite) and \<open>visited\<close> as they were. The suite's loop goes
  on with the next URL from that state, so that the failure changes nothing else in the run.
  Whatever pages fail to load, a run whose suites have no link-discovery hook returns, if the
  poll interval is above 0.
\<close>

theorem load_failure_recovered:
  "(web url = None \<longrightarrow>
     (\<exists>st'. scrape cfg web s url st = Some st' \<and>
        st' = log_error (''Page did not load: '' @ url) (st\<lparr>opened := opened st @ [url]\<rparr>) \<and>
        logged st' = logged st @ [''ERROR: Page did not load: '' @ url] \<and>
        w_items st' = w_items st \<and> w_count st' = w_count st \<and>
        written st' = written st \<and> saved st' = saved st \<and>
        suites st' = suites st \<and> visited st' = visited st \<and>
        run_urls cfg web s (url # rest) st = run_urls cfg web s rest st')) \<and>
   (0 < timeoutInterval cfg \<and> list_all (\<lambda>s. moreUrls (opts s) = None) (suites st) \<longrightarrow>
     (\<exists>st'. runNext cfg web st = Some st'))"
proof (intro conjI impI)
  assume "web url = None"
  then show "\<exists>st'. scrape cfg web s url st = Some st' \<and>
        st' = log_error (''Page did not load: '' @ url) (st\<lparr>opened := opened st @ [url]\<rparr>) \<and>
        logged st' = logged st @ [''ERROR: Page did not load: '' @ url] \<and>
        w_items st' = w_items st \<and> w_count st' = w_count st \<and>
        written st' = written st \<and> saved st' = saved st \<and>
        suites st' = suites st \<and> visited st' = visited st \<and>
        run_urls cfg web s (url # rest) st = run_urls cfg web s rest st'"
    by (simp add: scrape_def Let_def complete_def log_error_def)
next
  assume "0 < timeoutInterval cfg \<and> list_all (\<lambda>s. moreUrls (opts s) = None) (suites st)"
  then show "\<exists>st'. runNext cfg web st = Some st'"
    using runNext_no_hooks by blast
qed

text \<open>
  The theorem at a suite with the URLs \<open>a\<close>, which does not load, and \<open>b\<close>. The whole
  run returns: its output is the item of \<open>b\<close>, and the error for \<open>a\<close> is in the log.
\<close>

theorem load_failure_recovered_witness:
  "all_but_a ''a'' = None \<and>
   (\<exists>st'. scrape default_config all_but_a (ScraperSuite ''Suite 0'' [''a'', ''b''] one_item) ''a'' init_state = Some st' \<and>
      logged st' = [''ERROR: Page did not load: a''] \<and> w_items st' = [] \<and> written st' = [] \<and> suites st' = []) \<and>
   0 < timeoutInterval default_config \<and>
   list_all (\<lambda>s. moreUrls (opts s) = None)
     (suites (init_state\<lparr>suites := make_suites 0 [(None, [''a'', ''b''], one_item)]\<rparr>)) \<and>
   map_option (map_sum id (\<lambda>st. (written st, w_count st, opened st, logged st)))
     (init default_config all_but_a [(None, [''a'', ''b''], one_item)])
     = Some (Inr ([''[7]''], 1, [''a'', ''b''],
         [''* Suite 0 starting'', ''ERROR: Page did not load: a'', ''* Scraping b'',
          ''* Suite 0 complete'', ''* Writing 1 items'', ''* Saved 1 items'']))"
proof -
  let ?s = "ScraperSuite ''Suite 0'' [''a'', ''b''] one_item"
  let ?i = "init_state :: unit rstate"
  note T = load_failure_recovered [of all_but_a "''a''" default_config ?s ?i "[''b'']"]
  have a: "all_but_a ''a'' = None" by (simp add: all_but_a_def)
  from T a have 1: "\<exists>st'. scrape default_config all_but_a ?s ''a'' ?i = Some st' \<and>
      logged st' = [''ERROR: Page did not load: a''] \<and> w_items st' = [] \<and> written st' = [] \<and> suites st' = []"
    by (auto simp: init_state_def log_error_def)
  have i: "0 < timeoutInterval default_config" by (simp add: default_config_def)
  have h: "list_all (\<lambda>s. moreUrls (opts s) = None) (suites (?i\<lparr>suites := make_suites 0 [(None, [''a'', ''b''], one_item)]\<rparr>))"
    by (simp add: ScraperSuite_def one_item_def)
  have r: "map_option (map_sum id (\<lambda>st. (written st, w_count st, opened st, logged st)))
     (init default_config all_but_a [(None, [''a'', ''b''], one_item)])
     = Some (Inr ([''[7]''], 1, [''a'', ''b''],
         [''* Suite 0 starting'', ''ERROR: Page did not load: a'', ''* Scraping b'',
          ''* Suite 0 complete'', ''* Writing 1 items'', ''* Saved 1 items'']))"
    by (simp add: init_def init_state_def runNext.simps run_def scrape_def all_but_a_def one_item_def
        ScraperSuite_def log_msg_def log_error_def complete_def scrapePage_def writer_add_def default_config_def
        w_add_def mgr_complete_def writer_finish_def w_finish_def writeBatch_def Let_def
        json_formatter_def show_int_def show_nat.simps digit_char_def)
  from a 1 i h r show ?thesis by (intro conjI)
qed

section \<open>The one-file-per-item writer writes one file\<close>

lemma fold_itemfile_save:
  "saved (fold (itemfile_save cfg) xs st) = saved st @ map (\<lambda>x. (x, outFile cfg, ModeW)) xs \<and>
   w_count (fold (itemfile_save cfg) xs st) = w_count st + length xs"
  by (induction xs arbitrary: st) (simp_all add: itemfile_save_def Let_def)

text \<open>
  C9 fails on the code. Two items are added: both are written to the path
  \<open>config.outFile\<close> in mode \<open>w\<close>, the second over the first; the file names
  \<open>pjscrape_out.txt-0\<close> and \<open>pjscrape_out.txt-1\<close> that the source computes are not
  used. The count is 2.
\<close>

theorem itemfile_writes_one_file:
  "saved (itemfile_add (default_config\<lparr>cfg_writer := Itemfile\<rparr>) (JArr [JNum 1, JNum 2]) new_writer)
     = [(Some ''1'', ''pjscrape_out.txt'', ModeW), (Some ''2'', ''pjscrape_out.txt'', ModeW)] \<and>
   w_count (itemfile_add (default_config\<lparr>cfg_writer := Itemfile\<rparr>) (JArr [JNum 1, JNum 2]) new_writer) = 2"
  by (simp add: itemfile_add_def itemfile_save_def default_config_def new_writer_def Let_def
        json_formatter_def show_int_def show_nat.simps digit_char_def)

section \<open>The rows of the CSV formatter\<close>















end
